theory Spec2Isabelle
  imports Complex_Main
begin

section \<open>Data model of the flow builder\<close>

text \<open>
  The flow builder is the route component \<open>App\<close> of \<open>src/routes/index.tsx\<close>, in its
  latest revision: the one with \<open>wouldCreateCycle\<close>, \<open>areAllNodesConnected\<close>,
  \<open>deleteSelectedEdge\<close> and \<open>handleClearAll\<close>. Earlier revisions of the same file have
  no cycle check and a \<open>saveChanges\<close> that only shows an alert.

  A React Flow \<open>Connection\<close> is \<open>{source, sourceHandle, target, targetHandle}\<close>; an
  \<open>Edge\<close> is a connection with an \<open>id\<close> (\<open>addEdge\<close> builds \<open>{...params, id}\<close>), so
  the edge record extends the connection record and \<open>source\<close>, \<open>target\<close> read both.

  A handle id is a string or \<open>null\<close> in a connection (\<open>string | null\<close>), and is optional
  in an edge (\<open>sourceHandle?: string | null\<close>): an edge may have no such key, which reads
  as \<open>undefined\<close>. The strict comparison \<open>===\<close> tells the three apart.
\<close>

datatype handleId = Undefined | Null | Id string

record connection =
  source :: string
  sourceHandle :: handleId
  target :: string
  targetHandle :: handleId

record edge = connection +
  edge_id :: string

type_synonym position = "real \<times> real"

text \<open>
  A message text is typed by the user and may hold any character, so it is the list of its
  UTF-16 code units. Node ids, handle ids and toast messages are plain strings.
\<close>

type_synonym codeUnits = "nat list"

text \<open>A node; \<open>message\<close> is the field \<open>data.message\<close>.\<close>

record node =
  node_id :: string
  node_type :: string
  position :: position
  message :: codeUnits

text \<open>
  The state of \<open>App\<close>: the React Flow state (\<open>nodes\<close>, \<open>edges\<close>), the three persisted
  atoms, and the \<open>useState\<close> cells. Every handler below is one state transition; the
  handlers that call \<open>toast\<close> also return the message shown. The counter is a
  JavaScript number that holds a non-negative integer; see \<open>jsIncrement\<close> for its
  arithmetic.
\<close>

record state =
  nodes :: "node list"
  edges :: "edge list"
  persistedNodes :: "node list"
  persistedEdges :: "edge list"
  nodeIdCounter :: nat
  selectedNodeId :: "string option"
  selectedEdgeId :: "string option"
  messageText :: codeUnits
  showSettings :: bool

text \<open>The code units of a string literal of the source (ASCII).\<close>

definition utf16 :: "string \<Rightarrow> codeUnits" where
  "utf16 str = map of_char str"

definition defaultNodes :: "node list" where
  "defaultNodes =
     [\<lparr>node_id = ''1'', node_type = ''messageNode'', position = (250, 50),
       message = utf16 ''Hello! Welcome to our Bitespeed.''\<rparr>]"

text \<open>The state of a first start: the atoms' default values and the \<open>useState\<close> defaults.\<close>

definition initialState :: state where
  "initialState =
     \<lparr>nodes = defaultNodes, edges = [], persistedNodes = defaultNodes, persistedEdges = [],
      nodeIdCounter = 2, selectedNodeId = None, selectedEdgeId = None,
      messageText = [], showSettings = False\<rparr>"

section \<open>JavaScript primitives the handlers use\<close>

text \<open>\<open>!v\<close> for \<open>v : string | null\<close>: null and the empty string are falsy.\<close>

definition falsy :: "string option \<Rightarrow> bool" where
  "falsy v = (case v of None \<Rightarrow> True | Some str \<Rightarrow> str = [])"

text \<open>\<open>!h\<close> for a handle id: \<open>undefined\<close>, \<open>null\<close> and the empty string are falsy.\<close>

definition falsyHandle :: "handleId \<Rightarrow> bool" where
  "falsyHandle h = (case h of Undefined \<Rightarrow> True | Null \<Rightarrow> True | Id str \<Rightarrow> str = [])"

text \<open>
  \<open>String.prototype.trim\<close> removes the white space and line terminators of ECMAScript
  from both ends: U+0009 to U+000D, U+0020, U+00A0, U+1680, U+2000 to U+200A, U+2028,
  U+2029, U+202F, U+205F, U+3000 and U+FEFF.
\<close>

definition isWhitespace :: "nat \<Rightarrow> bool" where
  "isWhitespace c =
     (c \<in> {9, 10, 11, 12, 13, 32, 160, 5760, 8232, 8233, 8239, 8287, 12288, 65279}
      \<or> (8192 \<le> c \<and> c \<le> 8202))"

definition trim :: "codeUnits \<Rightarrow> codeUnits" where
  "trim str = rev (dropWhile isWhitespace (rev (dropWhile isWhitespace str)))"

text \<open>
  \<open>prev + 1\<close> on the counter. A JavaScript number is an IEEE double: every integer up to
  \<open>2^53\<close> is exact, and \<open>2^53 + 1\<close> rounds back to \<open>2^53\<close>. From its default 2 the
  counter only takes integer values up to \<open>2^53\<close>, where it stays.
\<close>

definition counterLimit :: nat where
  "counterLimit = 9007199254740992"

definition jsIncrement :: "nat \<Rightarrow> nat" where
  "jsIncrement prev = (if prev < counterLimit then prev + 1 else prev)"

text \<open>
  \<open>Number.prototype.toString\<close> on a non-negative integer below \<open>10^21\<close>: its decimal
  digits.
\<close>

definition digit :: "nat \<Rightarrow> char" where
  "digit d = ''0123456789'' ! d"

fun toString :: "nat \<Rightarrow> string" where
  "toString n = (if n < 10 then [digit n] else toString (n div 10) @ [digit (n mod 10)])"

text \<open>
  \<open>addEdge\<close> is a function of the library \<open>@xyflow/react\<close> (React Flow 12), which is
  not part of the repository; the model follows the library. It returns the list as it is
  when the source or the target is missing, or when \<open>connectionExists\<close>: the list holds an
  edge with the same source and target whose handle ids are \<open>===\<close> or both falsy.
  Otherwise it builds \<open>{...params, id}\<close>, deletes a handle key whose value is \<open>null\<close>, and
  appends the edge. The id the library computes is the parameter \<open>newId\<close>.
\<close>

definition sameHandle :: "handleId \<Rightarrow> handleId \<Rightarrow> bool" where
  "sameHandle a b \<longleftrightarrow> a = b \<or> (falsyHandle a \<and> falsyHandle b)"

definition connectionExists :: "connection \<Rightarrow> edge list \<Rightarrow> bool" where
  "connectionExists params es =
     list_ex (\<lambda>el. source el = source params \<and> target el = target params \<and>
                    sameHandle (sourceHandle el) (sourceHandle params) \<and>
                    sameHandle (targetHandle el) (targetHandle params)) es"

definition deleteNull :: "handleId \<Rightarrow> handleId" where
  "deleteNull h = (if h = Null then Undefined else h)"

definition addEdge :: "string \<Rightarrow> connection \<Rightarrow> edge list \<Rightarrow> edge list" where
  "addEdge newId params es =
     (if source params = [] \<or> target params = [] then es
      else if connectionExists params es then es
      else es @ [\<lparr>source = source params, sourceHandle = deleteNull (sourceHandle params),
                   target = target params, targetHandle = deleteNull (targetHandle params),
                   edge_id = newId\<rparr>])"

section \<open>Cycle detection\<close>

text \<open>
  \<open>hasPath\<close> is the recursive closure inside \<open>wouldCreateCycle\<close>. The closure mutates the
  set \<open>visited\<close> it shares with all its recursive calls, so the model passes the set in
  and returns it with the answer. \<open>hasPathLoop\<close> is the \<open>for (const edge of outgoingEdges)\<close>
  loop, which returns early when a recursive call finds the target.
\<close>

function hasPath :: "edge list \<Rightarrow> string \<Rightarrow> string \<Rightarrow> string set \<Rightarrow> bool \<times> string set"
  and hasPathLoop :: "edge list \<Rightarrow> string \<Rightarrow> edge list \<Rightarrow> string set \<Rightarrow> bool \<times> string set"
where
  "hasPath es from to visited =
     (if from = to then (True, visited)
      else if from \<in> visited then (False, visited)
      else hasPathLoop es to (filter (\<lambda>edge. source edge = from) es) (insert from visited))"
| "hasPathLoop es to [] visited = (False, visited)"
| "hasPathLoop es to (edge # outgoingEdges) visited =
     (let r = hasPath es (target edge) to visited
      in if fst r then (True, snd r) else hasPathLoop es to outgoingEdges (snd r))"
  by pat_completeness auto

definition wouldCreateCycle :: "edge list \<Rightarrow> string \<Rightarrow> string \<Rightarrow> bool" where
  "wouldCreateCycle es sourceId targetId = fst (hasPath es targetId sourceId {})"

section \<open>Connectivity\<close>

definition areAllNodesConnected :: "node list \<Rightarrow> edge list \<Rightarrow> bool" where
  "areAllNodesConnected ns es =
     (if length ns \<le> 1 then True
      else
        (let connectedNodeIds =
               fold (\<lambda>edge acc. insert (target edge) (insert (source edge) acc)) es {}
         in list_all (\<lambda>node. node_id node \<in> connectedNodeIds) ns))"

section \<open>Handlers\<close>

definition onConnect :: "string \<Rightarrow> connection \<Rightarrow> state \<Rightarrow> state \<times> string option" where
  "onConnect newId params s =
     (if source params = [] \<or> target params = [] then (s, None)
      else if source params = target params then
        (s, Some ''Cannot connect a node to itself!'')
      else
        (let sourceHasEdge =
               list_ex (\<lambda>edge. source edge = source params \<and>
                                sourceHandle edge = sourceHandle params) (edges s)
         in if sourceHasEdge then
              (s, Some ''Source handle can only have one outgoing connection!'')
            else if wouldCreateCycle (edges s) (source params) (target params) then
              (s, Some ''Cannot create circular connections! Chatbot flows must be linear.'')
            else
              (let newEdges = addEdge newId params (edges s)
               in (s\<lparr>edges := newEdges, persistedEdges := newEdges\<rparr>, None))))"

definition onNodeClick :: "node \<Rightarrow> state \<Rightarrow> state" where
  "onNodeClick nd s =
     s\<lparr>selectedNodeId := Some (node_id nd), selectedEdgeId := None,
       messageText := message nd, showSettings := True\<rparr>"

definition onEdgeClick :: "edge \<Rightarrow> state \<Rightarrow> state" where
  "onEdgeClick e s = s\<lparr>selectedEdgeId := Some (edge_id e), selectedNodeId := None\<rparr>"

definition onPaneClick :: "state \<Rightarrow> state" where
  "onPaneClick s = s\<lparr>selectedNodeId := None, selectedEdgeId := None\<rparr>"

definition deleteSelectedEdge :: "state \<Rightarrow> state \<times> string option" where
  "deleteSelectedEdge s =
     (if falsy (selectedEdgeId s) then (s, None)
      else
        (let newEdges = filter (\<lambda>edge. Some (edge_id edge) \<noteq> selectedEdgeId s) (edges s)
         in (s\<lparr>edges := newEdges, persistedEdges := newEdges, selectedEdgeId := None\<rparr>,
             Some ''Connection removed!'')))"

definition handleKeyDown :: "string \<Rightarrow> state \<Rightarrow> state \<times> string option" where
  "handleKeyDown key s =
     (if key = ''Delete'' \<and> \<not> falsy (selectedEdgeId s) then deleteSelectedEdge s
      else (s, None))"

text \<open>The two \<open>Math.random()\<close> draws of \<open>createMessageNode\<close> are the parameter \<open>pos\<close>.\<close>

definition createMessageNode :: "position \<Rightarrow> state \<Rightarrow> state" where
  "createMessageNode pos s =
     (if trim (messageText s) = [] then s
      else
        (let newNode = \<lparr>node_id = toString (nodeIdCounter s), node_type = ''messageNode'',
                        position = pos, message = messageText s\<rparr>;
             newNodes = nodes s @ [newNode]
         in s\<lparr>nodes := newNodes, persistedNodes := newNodes,
              nodeIdCounter := jsIncrement (nodeIdCounter s), messageText := []\<rparr>))"

definition updateSelectedNode :: "state \<Rightarrow> state" where
  "updateSelectedNode s =
     (if falsy (selectedNodeId s) \<or> trim (messageText s) = [] then s
      else
        (let newNodes =
               map (\<lambda>nd. if Some (node_id nd) = selectedNodeId s
                          then nd\<lparr>message := messageText s\<rparr> else nd) (nodes s)
         in s\<lparr>nodes := newNodes, persistedNodes := newNodes, messageText := [],
              selectedNodeId := None, showSettings := False\<rparr>))"

definition deleteSelectedNode :: "state \<Rightarrow> state" where
  "deleteSelectedNode s =
     (if falsy (selectedNodeId s) then s
      else
        (let newNodes = filter (\<lambda>nd. Some (node_id nd) \<noteq> selectedNodeId s) (nodes s);
             newEdges = filter (\<lambda>edge. Some (source edge) \<noteq> selectedNodeId s \<and>
                                        Some (target edge) \<noteq> selectedNodeId s) (edges s)
         in s\<lparr>nodes := newNodes, persistedNodes := newNodes,
              edges := newEdges, persistedEdges := newEdges,
              selectedNodeId := None, showSettings := False, messageText := []\<rparr>))"

definition handleClearAll :: "state \<Rightarrow> state" where
  "handleClearAll s =
     s\<lparr>nodes := defaultNodes, edges := [], persistedNodes := defaultNodes,
       persistedEdges := [], nodeIdCounter := 2, selectedNodeId := None,
       selectedEdgeId := None, showSettings := False, messageText := []\<rparr>"

definition saveChanges :: "state \<Rightarrow> state \<times> string option" where
  "saveChanges s =
     (if \<not> areAllNodesConnected (nodes s) (edges s) then
        (s, Some ''Cannot save! All nodes must be connected to the flow.'')
      else (s, Some ''Flow saved successfully! All nodes are properly connected.''))"

text \<open>The inline handlers of the settings panel: the text area, the toggle and Cancel.\<close>

definition setMessageText :: "codeUnits \<Rightarrow> state \<Rightarrow> state" where
  "setMessageText txt s = s\<lparr>messageText := txt\<rparr>"

definition toggleSettings :: "state \<Rightarrow> state" where
  "toggleSettings s = s\<lparr>showSettings := \<not> showSettings s\<rparr>"

definition cancelSettings :: "state \<Rightarrow> state" where
  "cancelSettings s = s\<lparr>showSettings := False, selectedNodeId := None, messageText := []\<rparr>"

section \<open>Sequences of user intents\<close>

text \<open>
  One intent per handler of \<open>App\<close>. The changes that React Flow applies by itself through
  \<open>onNodesChange\<close> and \<open>onEdgesChange\<close> (dragging, selecting, removing elements) are
  library behaviour and not among these intents.
\<close>

datatype intent =
    Connect string connection
  | NodeClick node
  | EdgeClick edge
  | PaneClick
  | DeleteSelectedEdge
  | KeyDown string
  | SetMessageText codeUnits
  | ToggleSettings
  | CancelSettings
  | CreateMessageNode position
  | UpdateSelectedNode
  | DeleteSelectedNode
  | ClearAll
  | SaveChanges

fun step :: "intent \<Rightarrow> state \<Rightarrow> state" where
  "step (Connect newId params) s = fst (onConnect newId params s)"
| "step (NodeClick nd) s = onNodeClick nd s"
| "step (EdgeClick e) s = onEdgeClick e s"
| "step PaneClick s = onPaneClick s"
| "step DeleteSelectedEdge s = fst (deleteSelectedEdge s)"
| "step (KeyDown key) s = fst (handleKeyDown key s)"
| "step (SetMessageText txt) s = setMessageText txt s"
| "step ToggleSettings s = toggleSettings s"
| "step CancelSettings s = cancelSettings s"
| "step (CreateMessageNode pos) s = createMessageNode pos s"
| "step UpdateSelectedNode s = updateSelectedNode s"
| "step DeleteSelectedNode s = deleteSelectedNode s"
| "step ClearAll s = handleClearAll s"
| "step SaveChanges s = fst (saveChanges s)"

fun run :: "intent list \<Rightarrow> state \<Rightarrow> state" where
  "run [] s = s"
| "run (i # is) s = run is (step i s)"

text \<open>
  The node ids that an intent brings into the graph: the ids of the nodes after the step
  that no node had before it. \<open>issued\<close> collects them over a run, in order.
\<close>

definition newIds :: "intent \<Rightarrow> state \<Rightarrow> string list" where
  "newIds i s =
     filter (\<lambda>x. x \<notin> set (map node_id (nodes s))) (map node_id (nodes (step i s)))"

fun issued :: "intent list \<Rightarrow> state \<Rightarrow> string list" where
  "issued [] s = []"
| "issued (i # is) s = newIds i s @ issued is (step i s)"

section \<open>Graph notions of the specification\<close>

text \<open>The directed graph induced by an edge list: one pair per edge.\<close>

definition edge_rel :: "edge list \<Rightarrow> (string \<times> string) set" where
  "edge_rel es = set (map (\<lambda>e. (source e, target e)) es)"

text \<open>
  What a search that answers "no" has done to the visited set: it has only added nodes,
  none of them the node looked for, and every edge out of an added node leads into the set.
\<close>

definition explored :: "edge list \<Rightarrow> string \<Rightarrow> string set \<Rightarrow> string set \<Rightarrow> bool" where
  "explored es dst old new \<longleftrightarrow>
     old \<subseteq> new \<and> dst \<notin> new - old \<and>
     (\<forall>x \<in> new - old. \<forall>y. (x, y) \<in> edge_rel es \<longrightarrow> y \<in> new)"

text \<open>
  The invariant of the id allocator: the counter is at least its default 2, the ids of
  the nodes present are pairwise distinct, and each is the decimal form of a number below
  the counter.
\<close>

definition idsAllocated :: "state \<Rightarrow> bool" where
  "idsAllocated s \<longleftrightarrow>
     2 \<le> nodeIdCounter s \<and>
     distinct (map node_id (nodes s)) \<and>
     (\<forall>nd \<in> set (nodes s). \<exists>k < nodeIdCounter s. node_id nd = toString k)"

section \<open>Example graphs\<close>

text \<open>
  A connection drawn between two message nodes. The two \<open>Handle\<close> elements of
  \<open>MessageNode\<close> have no \<open>id\<close>, so React Flow passes \<open>null\<close> for both handle ids.
\<close>

definition link :: "string \<Rightarrow> string \<Rightarrow> connection" where
  "link a b = \<lparr>source = a, sourceHandle = Null, target = b, targetHandle = Null\<rparr>"

text \<open>The chain 1 \<rightarrow> 2 \<rightarrow> 3, and an attempt to close it with 3 \<rightarrow> 1.\<close>

definition chainIntents :: "intent list" where
  "chainIntents =
     [Connect ''e1'' (link ''1'' ''2''), Connect ''e2'' (link ''2'' ''3''),
      Connect ''e3'' (link ''3'' ''1'')]"

definition chainState :: state where
  "chainState = initialState\<lparr>edges := addEdge ''e2'' (link ''2'' ''3'') (addEdge ''e1'' (link ''1'' ''2'') [])\<rparr>"

text \<open>
  A connection out of a source handle that has an id, and the default state after the
  connection from handle \<open>out\<close> of node 1 to node 2.
\<close>

definition namedLink :: "string \<Rightarrow> string \<Rightarrow> string \<Rightarrow> connection" where
  "namedLink a h b = \<lparr>source = a, sourceHandle = Id h, target = b, targetHandle = Null\<rparr>"

definition namedState :: state where
  "namedState = fst (onConnect ''e1'' (namedLink ''1'' ''out'' ''2'') initialState)"

text \<open>A diamond: A \<rightarrow> B \<rightarrow> D and A \<rightarrow> C \<rightarrow> D.\<close>

definition diamond :: "edge list" where
  "diamond =
     addEdge ''e4'' (link ''C'' ''D'') (addEdge ''e3'' (link ''B'' ''D'')
       (addEdge ''e2'' (link ''A'' ''C'') (addEdge ''e1'' (link ''A'' ''B'') [])))"

text \<open>
  Three nodes in a chain, built from the default state: two nodes are created, then 1 is
  connected to 2 and 2 to 3.
\<close>

definition threeNodes :: state where
  "threeNodes =
     run [SetMessageText (utf16 ''second''), CreateMessageNode (100, 100),
          SetMessageText (utf16 ''third''), CreateMessageNode (200, 200),
          Connect ''e1'' (link ''1'' ''2''), Connect ''e2'' (link ''2'' ''3'')] initialState"

text \<open>Two connections out of node 1, to 2 and to 3, drawn one after the other.\<close>

definition fanOutIntents :: "intent list" where
  "fanOutIntents = [Connect ''e1'' (link ''1'' ''2''), Connect ''e2'' (link ''1'' ''3'')]"

text \<open>An edge list as it is persisted: the edge from 1 to 2 has no handle keys.\<close>

definition storedEdge :: edge where
  "storedEdge =
     \<lparr>source = ''1'', sourceHandle = Undefined, target = ''2'', targetHandle = Undefined,
      edge_id = ''e1''\<rparr>"

text \<open>A node is created, deleted again, and another node is created.\<close>

definition createIntents :: "intent list" where
  "createIntents =
     [SetMessageText (utf16 ''second''), CreateMessageNode (100, 100),
      NodeClick \<lparr>node_id = ''2'', node_type = ''messageNode'', position = (100, 100),
                 message = utf16 ''second''\<rparr>,
      DeleteSelectedNode,
      SetMessageText (utf16 ''third''), CreateMessageNode (200, 200)]"

text \<open>A node is created, the flow is cleared, and another node is created.\<close>

definition resetIntents :: "intent list" where
  "resetIntents =
     [SetMessageText (utf16 ''first try''), CreateMessageNode (100, 100), ClearAll,
      SetMessageText (utf16 ''second try''), CreateMessageNode (100, 100)]"

section \<open>Termination of the search\<close>

text \<open>
  The recursion of \<open>hasPath\<close> is nested through the visited set, so termination needs
  that the set only grows. The measure is the number of edge sources not yet visited.
\<close>

lemma visited_grows_dom:
  "hasPath_hasPathLoop_dom (Inl (es, frm, dst, visited)) \<Longrightarrow>
     visited \<subseteq> snd (hasPath es frm dst visited)"
  "hasPath_hasPathLoop_dom (Inr (es, dst, out, visited)) \<Longrightarrow>
     visited \<subseteq> snd (hasPathLoop es dst out visited)"
proof (induction es frm dst visited and es dst out visited rule: hasPath_hasPathLoop.pinduct)
  case (1 es frm dst visited)
  then show ?case by (auto simp: hasPath.psimps)
next
  case (2 es dst visited)
  then show ?case by (simp add: hasPathLoop.psimps)
next
  case (3 es dst e outgoingEdges visited)
  then show ?case by (auto simp: hasPathLoop.psimps Let_def)
qed

lemma hasPath_dom_all: "All hasPath_hasPathLoop_dom"
proof (relation "inv_image (less_than <*lex*> less_than)
    (\<lambda>x. case x of
       Inl (es, frm, dst, visited) \<Rightarrow> (2 * card (source ` set es - visited) + 1, 0)
     | Inr (es, dst, out, visited) \<Rightarrow>
         (if out = [] then 0 else 2 * card (source ` set es - visited) + 2, length out))",
    goal_cases)
  case 1
  then show ?case by (intro wf_inv_image wf_lex_prod wf_less_than)
next
  case (2 es frm dst visited)
  show ?case
  proof (cases "filter (\<lambda>edge. source edge = frm) es = []")
    case True
    then show ?thesis by simp
  next
    case False
    then have "frm \<in> source ` set es" by (auto simp: filter_empty_conv)
    with 2 have "frm \<in> source ` set es - visited" by simp
    then have "card (source ` set es - insert frm visited) < card (source ` set es - visited)"
      by (metis Diff_insert card_Diff1_less finite_Diff finite_imageI finite_set)
    with False show ?thesis by simp
  qed
next
  case (3 es dst e outgoingEdges visited)
  then show ?case by simp
next
  case (4 es dst e outgoingEdges visited x)
  then have "visited \<subseteq> snd x" using visited_grows_dom(1) by blast
  then have "card (source ` set es - snd x) \<le> card (source ` set es - visited)"
    by (intro card_mono) auto
  then show ?case by auto
qed

termination hasPath
  using hasPath_dom_all by blast

declare hasPath.simps [simp del]

lemma hasPath_found: "hasPath es dst dst visited = (True, visited)"
  by (subst hasPath.simps) simp

lemma hasPath_revisit: "frm \<noteq> dst \<Longrightarrow> frm \<in> visited \<Longrightarrow> hasPath es frm dst visited = (False, visited)"
  by (subst hasPath.simps) simp

lemma hasPath_expand:
  "frm \<noteq> dst \<Longrightarrow> frm \<notin> visited \<Longrightarrow>
     hasPath es frm dst visited =
       hasPathLoop es dst (filter (\<lambda>edge. source edge = frm) es) (insert frm visited)"
  by (subst hasPath.simps) simp

lemma visited_grows:
  "visited \<subseteq> snd (hasPath es frm dst visited)"
  "visited \<subseteq> snd (hasPathLoop es dst out visited)"
  using visited_grows_dom hasPath_dom_all by blast+

text \<open>Soundness: a positive answer comes with a path.\<close>

lemma hasPath_sound:
  "fst (hasPath es frm dst visited) \<Longrightarrow> (frm, dst) \<in> (edge_rel es)\<^sup>*"
  "fst (hasPathLoop es dst out visited) \<Longrightarrow> \<exists>e \<in> set out. (target e, dst) \<in> (edge_rel es)\<^sup>*"
proof (induction es frm dst visited and es dst out visited rule: hasPath_hasPathLoop.induct)
  case (1 es frm dst visited)
  show ?case
  proof (cases "frm = dst \<or> frm \<in> visited")
    case True
    with 1(2) show ?thesis by (cases "frm = dst") (auto simp: hasPath_revisit)
  next
    case False
    then have "frm \<noteq> dst" "frm \<notin> visited" by auto
    from 1(1)[OF this] 1(2) hasPath_expand[OF this, of es]
    obtain e where e: "e \<in> set es" "source e = frm" "(target e, dst) \<in> (edge_rel es)\<^sup>*"
      by auto
    then have "(frm, target e) \<in> edge_rel es" by (auto simp: edge_rel_def)
    with e show ?thesis by (meson converse_rtrancl_into_rtrancl)
  qed
next
  case (2 es dst visited)
  then show ?case by simp
next
  case (3 es dst e outgoingEdges visited)
  then show ?case by (auto simp: Let_def split: if_splits)
qed

lemma explored_refl: "explored es dst v v"
  by (simp add: explored_def)

lemma explored_trans:
  "explored es dst v1 v2 \<Longrightarrow> explored es dst v2 v3 \<Longrightarrow> explored es dst v1 v3"
  unfolding explored_def by blast

lemma explored_node:
  assumes "frm \<noteq> dst"
    and "explored es dst (insert frm visited) v"
    and "target ` set (filter (\<lambda>edge. source edge = frm) es) \<subseteq> v"
  shows "explored es dst visited v"
proof -
  have "\<forall>y. (frm, y) \<in> edge_rel es \<longrightarrow> y \<in> v"
    using assms(3) by (auto simp: edge_rel_def)
  with assms(1,2) show ?thesis unfolding explored_def by blast
qed

lemma hasPath_explored:
  "\<not> fst (hasPath es frm dst visited) \<Longrightarrow>
     frm \<in> snd (hasPath es frm dst visited) \<and>
     explored es dst visited (snd (hasPath es frm dst visited))"
  "\<not> fst (hasPathLoop es dst out visited) \<Longrightarrow>
     target ` set out \<subseteq> snd (hasPathLoop es dst out visited) \<and>
     explored es dst visited (snd (hasPathLoop es dst out visited))"
proof (induction es frm dst visited and es dst out visited rule: hasPath_hasPathLoop.induct)
  case (1 es frm dst visited)
  show ?case
  proof (cases "frm = dst \<or> frm \<in> visited")
    case True
    with 1(2) show ?thesis
      by (cases "frm = dst") (simp_all add: hasPath_revisit hasPath_found explored_refl)
  next
    case False
    let ?out = "filter (\<lambda>edge. source edge = frm) es"
    let ?v = "snd (hasPathLoop es dst ?out (insert frm visited))"
    from False have ne: "frm \<noteq> dst" and nv: "frm \<notin> visited" by auto
    have eq: "hasPath es frm dst visited = hasPathLoop es dst ?out (insert frm visited)"
      using ne nv by (rule hasPath_expand)
    with 1(2) have nf: "\<not> fst (hasPathLoop es dst ?out (insert frm visited))" by simp
    from 1(1)[OF ne nv nf]
    have a: "target ` set ?out \<subseteq> ?v" and b: "explored es dst (insert frm visited) ?v"
      by simp_all
    from b have "frm \<in> ?v" unfolding explored_def by blast
    moreover have "explored es dst visited ?v" using ne b a by (rule explored_node)
    ultimately show ?thesis unfolding eq by simp
  qed
next
  case (2 es dst visited)
  then show ?case by (simp add: explored_refl)
next
  case (3 es dst e outgoingEdges visited)
  let ?r = "hasPath es (target e) dst visited"
  let ?v = "snd (hasPathLoop es dst outgoingEdges (snd ?r))"
  have nf1: "\<not> fst ?r"
  proof
    assume "fst ?r"
    then have "fst (hasPathLoop es dst (e # outgoingEdges) visited)" by (simp add: Let_def)
    with 3(3) show False by simp
  qed
  then have eq: "hasPathLoop es dst (e # outgoingEdges) visited =
      hasPathLoop es dst outgoingEdges (snd ?r)"
    by (simp add: Let_def)
  with 3(3) have nf2: "\<not> fst (hasPathLoop es dst outgoingEdges (snd ?r))" by simp
  from 3(1)[OF nf1] have a1: "target e \<in> snd ?r" and b1: "explored es dst visited (snd ?r)"
    by simp_all
  from 3(2)[OF refl nf1 nf2] have a2: "target ` set outgoingEdges \<subseteq> ?v"
      and b2: "explored es dst (snd ?r) ?v"
    by simp_all
  from b2 have "snd ?r \<subseteq> ?v" unfolding explored_def by blast
  with a1 a2 have "target ` set (e # outgoingEdges) \<subseteq> ?v" by auto
  moreover have "explored es dst visited ?v" using b1 b2 by (rule explored_trans)
  ultimately show ?case unfolding eq by simp
qed

lemma closed_set_reach:
  "(a, b) \<in> r\<^sup>* \<Longrightarrow> a \<in> V \<Longrightarrow> (\<And>x y. x \<in> V \<Longrightarrow> (x, y) \<in> r \<Longrightarrow> y \<in> V) \<Longrightarrow> b \<in> V"
  by (induction rule: rtrancl_induct) auto

lemma wouldCreateCycle_reach:
  "wouldCreateCycle es sourceId targetId \<longleftrightarrow> (targetId, sourceId) \<in> (edge_rel es)\<^sup>*"
proof
  assume "wouldCreateCycle es sourceId targetId"
  then show "(targetId, sourceId) \<in> (edge_rel es)\<^sup>*"
    unfolding wouldCreateCycle_def by (rule hasPath_sound(1))
next
  assume path: "(targetId, sourceId) \<in> (edge_rel es)\<^sup>*"
  show "wouldCreateCycle es sourceId targetId"
  proof (rule ccontr)
    assume "\<not> wouldCreateCycle es sourceId targetId"
    then have nf: "\<not> fst (hasPath es targetId sourceId {})" by (simp add: wouldCreateCycle_def)
    let ?v = "snd (hasPath es targetId sourceId {})"
    from hasPath_explored(1)[OF nf] have a: "targetId \<in> ?v" and ex: "explored es sourceId {} ?v"
      by simp_all
    from ex have b: "sourceId \<notin> ?v" and c: "\<And>x y. x \<in> ?v \<Longrightarrow> (x, y) \<in> edge_rel es \<Longrightarrow> y \<in> ?v"
      unfolding explored_def by auto
    from path a have "sourceId \<in> ?v"
      by (rule closed_set_reach) (rule c)
    with b show False by simp
  qed
qed

section \<open>The connection handler\<close>

lemmas hasPath_eval = hasPath_found hasPath_revisit hasPath_expand

lemmas handler_defs = onConnect_def onNodeClick_def onEdgeClick_def onPaneClick_def
  deleteSelectedEdge_def handleKeyDown_def createMessageNode_def updateSelectedNode_def
  deleteSelectedNode_def handleClearAll_def saveChanges_def setMessageText_def
  toggleSettings_def cancelSettings_def

lemmas addEdge_defs = addEdge_def connectionExists_def sameHandle_def falsyHandle_def
  deleteNull_def

lemmas example_defs = link_def addEdge_defs initialState_def defaultNodes_def

text \<open>What \<open>addEdge\<close> returns: the list as it is, or the list with one edge appended.\<close>

lemma addEdge_cases:
  "addEdge newId params es = es \<or>
   addEdge newId params es =
     es @ [\<lparr>source = source params, sourceHandle = deleteNull (sourceHandle params),
            target = target params, targetHandle = deleteNull (targetHandle params),
            edge_id = newId\<rparr>]"
  by (simp add: addEdge_def)

lemma addEdge_appends:
  assumes "source params \<noteq> []" "target params \<noteq> []"
    and "\<not> (\<exists>e \<in> set es. source e = source params \<and>
              sameHandle (sourceHandle e) (sourceHandle params))"
  shows "addEdge newId params es =
     es @ [\<lparr>source = source params, sourceHandle = deleteNull (sourceHandle params),
            target = target params, targetHandle = deleteNull (targetHandle params),
            edge_id = newId\<rparr>]"
  using assms by (auto simp: addEdge_def connectionExists_def list_ex_iff)

lemma edge_rel_addEdge:
  "edge_rel (addEdge newId params es) \<subseteq> insert (source params, target params) (edge_rel es)"
  using addEdge_cases[of newId params es] by (auto simp: edge_rel_def)

lemma edge_rel_filter: "edge_rel (filter P es) \<subseteq> edge_rel es"
  by (auto simp: edge_rel_def)

text \<open>The outcome of \<open>onConnect\<close>, with the cycle check read as reachability.\<close>

lemma onConnect_result:
  "onConnect newId params s =
     (if source params = [] \<or> target params = [] then (s, None)
      else if source params = target params then
        (s, Some ''Cannot connect a node to itself!'')
      else if (\<exists>e \<in> set (edges s). source e = source params \<and> sourceHandle e = sourceHandle params) then
        (s, Some ''Source handle can only have one outgoing connection!'')
      else if (target params, source params) \<in> (edge_rel (edges s))\<^sup>* then
        (s, Some ''Cannot create circular connections! Chatbot flows must be linear.'')
      else
        (s\<lparr>edges := addEdge newId params (edges s),
           persistedEdges := addEdge newId params (edges s)\<rparr>, None))"
  by (auto simp: onConnect_def Let_def list_ex_iff wouldCreateCycle_reach)

lemma sameHandle_refl: "sameHandle h h"
  by (simp add: sameHandle_def)

lemma onConnect_edges:
  "edges (fst (onConnect newId params s)) = edges s \<or>
   (edges (fst (onConnect newId params s)) = addEdge newId params (edges s) \<and>
    (target params, source params) \<notin> (edge_rel (edges s))\<^sup>*)"
  by (simp add: onConnect_result)

lemma step_edges:
  "edges (step i s) = edges s \<or> edges (step i s) = [] \<or>
   (\<exists>P. edges (step i s) = filter P (edges s)) \<or>
   (\<exists>newId params. edges (step i s) = addEdge newId params (edges s) \<and>
    (target params, source params) \<notin> (edge_rel (edges s))\<^sup>*)"
proof (cases i)
  case (Connect newId params)
  then show ?thesis using onConnect_edges[of newId params s] by auto
next
  case DeleteSelectedEdge
  then show ?thesis by (auto simp: deleteSelectedEdge_def Let_def)
next
  case (KeyDown key)
  then show ?thesis by (auto simp: handleKeyDown_def deleteSelectedEdge_def Let_def)
next
  case DeleteSelectedNode
  then show ?thesis by (auto simp: deleteSelectedNode_def Let_def)
qed (simp_all add: onNodeClick_def onEdgeClick_def onPaneClick_def setMessageText_def
      toggleSettings_def cancelSettings_def createMessageNode_def updateSelectedNode_def
      handleClearAll_def saveChanges_def Let_def)

lemma step_acyclic:
  assumes "acyclic (edge_rel (edges s))"
  shows "acyclic (edge_rel (edges (step i s)))"
proof -
  consider "edges (step i s) = edges s" | "edges (step i s) = []"
    | P where "edges (step i s) = filter P (edges s)"
    | newId params where "edges (step i s) = addEdge newId params (edges s)"
        "(target params, source params) \<notin> (edge_rel (edges s))\<^sup>*"
    using step_edges[of i s] by blast
  then show ?thesis
  proof cases
    case 1
    with assms show ?thesis by simp
  next
    case 2
    then show ?thesis by (simp add: edge_rel_def acyclic_def)
  next
    case 3
    with assms show ?thesis using acyclic_subset edge_rel_filter by metis
  next
    case 4
    from assms 4(2) have "acyclic (insert (source params, target params) (edge_rel (edges s)))"
      by (simp add: acyclic_insert)
    then show ?thesis unfolding 4(1) using edge_rel_addEdge by (rule acyclic_subset)
  qed
qed

lemma run_acyclic:
  "acyclic (edge_rel (edges s)) \<Longrightarrow> acyclic (edge_rel (edges (run is s)))"
  by (induction "is" arbitrary: s) (simp_all add: step_acyclic)

declare toString.simps [simp del]

lemma chainState_edges:
  "edges chainState =
     [\<lparr>source = ''1'', sourceHandle = Undefined, target = ''2'', targetHandle = Undefined,
       edge_id = ''e1''\<rparr>,
      \<lparr>source = ''2'', sourceHandle = Undefined, target = ''3'', targetHandle = Undefined,
       edge_id = ''e2''\<rparr>]"
  by (simp add: chainState_def example_defs)

lemma chain_run:
  "map edge_id (edges (run chainIntents initialState)) = [''e1'', ''e2'']"
  by (simp add: chainIntents_def onConnect_def wouldCreateCycle_def hasPath_eval example_defs Let_def)

lemma namedState_eq:
  "namedState = initialState
     \<lparr>edges := [\<lparr>source = ''1'', sourceHandle = Id ''out'', target = ''2'',
                  targetHandle = Undefined, edge_id = ''e1''\<rparr>],
      persistedEdges := [\<lparr>source = ''1'', sourceHandle = Id ''out'', target = ''2'',
                  targetHandle = Undefined, edge_id = ''e1''\<rparr>]\<rparr>"
  by (simp add: namedState_def namedLink_def onConnect_def wouldCreateCycle_def hasPath_eval
      example_defs Let_def)

lemma utf16_empty: "utf16 str = [] \<longleftrightarrow> str = []"
  by (simp add: utf16_def)

lemma trim_eval:
  "trim (utf16 ''second'') = utf16 ''second''" "trim (utf16 ''third'') = utf16 ''third''"
  by (simp_all add: trim_def utf16_def isWhitespace_def)

lemmas text_eval = trim_eval utf16_empty

lemma threeNodes_nodes:
  "nodes threeNodes =
     [\<lparr>node_id = ''1'', node_type = ''messageNode'', position = (250, 50),
       message = utf16 ''Hello! Welcome to our Bitespeed.''\<rparr>,
      \<lparr>node_id = ''2'', node_type = ''messageNode'', position = (100, 100),
       message = utf16 ''second''\<rparr>,
      \<lparr>node_id = ''3'', node_type = ''messageNode'', position = (200, 200),
       message = utf16 ''third''\<rparr>]"
  by (simp add: threeNodes_def handler_defs example_defs text_eval toString.simps digit_def
      jsIncrement_def counterLimit_def Let_def)

lemma threeNodes_edges_eq:
  "edges threeNodes =
     [\<lparr>source = ''1'', sourceHandle = Undefined, target = ''2'', targetHandle = Undefined,
       edge_id = ''e1''\<rparr>,
      \<lparr>source = ''2'', sourceHandle = Undefined, target = ''3'', targetHandle = Undefined,
       edge_id = ''e2''\<rparr>]"
  by (simp add: threeNodes_def handler_defs example_defs text_eval toString.simps digit_def
      jsIncrement_def counterLimit_def Let_def wouldCreateCycle_def hasPath_eval)

section \<open>Acyclicity\<close>

text \<open>
  Claim C1. Starting from a state whose edge set is acyclic, the edge set stays acyclic
  under every sequence of user intents, in particular under every sequence of
  \<open>onConnect\<close> calls, accepted or not: \<open>acyclic r\<close> says that no node reaches itself
  through one or more edges of \<open>r\<close>.
\<close>

theorem connect_keeps_acyclic:
  "acyclic (edge_rel (edges s)) \<Longrightarrow> acyclic (edge_rel (edges (run is s)))"
  by (rule run_acyclic)

text \<open>
  From the default state, the connections 1 \<rightarrow> 2 and 2 \<rightarrow> 3 are accepted and 3 \<rightarrow> 1 is
  refused.
\<close>

theorem connect_keeps_acyclic_witness:
  "acyclic (edge_rel (edges initialState)) \<and>
   acyclic (edge_rel (edges (run chainIntents initialState))) \<and>
   map edge_id (edges (run chainIntents initialState)) = [''e1'', ''e2'']"
proof -
  have h: "acyclic (edge_rel (edges initialState))"
    by (simp add: initialState_def edge_rel_def acyclic_def)
  from connect_keeps_acyclic[OF h, of chainIntents] h chain_run show ?thesis by simp
qed

section \<open>The order of the connection checks\<close>

text \<open>
  Claim C2, as stated, fails: \<open>onConnect\<close> never looks at the node list. In the default
  state, whose only node has id 1, the connection from 1 to the unknown id 9 is accepted
  without a message and its edge is stored.
\<close>

theorem unknown_endpoint_counterexample:
  "''9'' \<notin> set (map node_id (nodes initialState)) \<and>
   snd (onConnect ''e1'' (link ''1'' ''9'') initialState) = None \<and>
   map edge_id (edges (fst (onConnect ''e1'' (link ''1'' ''9'') initialState))) = [''e1''] \<and>
   map target (edges (fst (onConnect ''e1'' (link ''1'' ''9'') initialState))) = [''9''] \<and>
   edges (fst (onConnect ''e1'' (link ''1'' ''9'') initialState)) \<noteq> edges initialState"
  by (simp add: onConnect_def wouldCreateCycle_def hasPath_eval example_defs Let_def)

text \<open>
  Claim C2, amended. \<open>onConnect\<close> checks in this order and stops at the first check that
  fails: (1) a connection whose source or target id is missing (empty) is dropped without
  a message; (2) a connection from a node to itself is refused with the self-loop message;
  (3) a connection whose source node and source handle id are those of an existing edge,
  the handle ids identical, is refused with the source-handle message; (4) a connection
  out of a source handle that no existing edge leaves is refused with the cycle message
  when \<open>wouldCreateCycle\<close> flags it, and is appended otherwise. Whenever a message is
  shown, and when the connection is dropped, the state is unchanged. Whether the endpoints
  are nodes of the graph is not checked. Nothing is said here of a connection whose source
  handle is taken by an edge whose handle id is not identical to the candidate's
  (\<open>undefined\<close> against \<open>null\<close>): that is the subject of claim C6.
\<close>

theorem onConnect_checks_in_order:
  "(source params = [] \<or> target params = [] \<longrightarrow> onConnect newId params s = (s, None)) \<and>
   (source params \<noteq> [] \<and> target params \<noteq> [] \<and> source params = target params \<longrightarrow>
      onConnect newId params s = (s, Some ''Cannot connect a node to itself!'')) \<and>
   (source params \<noteq> [] \<and> target params \<noteq> [] \<and> source params \<noteq> target params \<and>
    (\<exists>e \<in> set (edges s). source e = source params \<and> sourceHandle e = sourceHandle params) \<longrightarrow>
      onConnect newId params s =
        (s, Some ''Source handle can only have one outgoing connection!'')) \<and>
   (source params \<noteq> [] \<and> target params \<noteq> [] \<and> source params \<noteq> target params \<and>
    \<not> (\<exists>e \<in> set (edges s). source e = source params \<and>
          sameHandle (sourceHandle e) (sourceHandle params)) \<longrightarrow>
      onConnect newId params s =
        (if wouldCreateCycle (edges s) (source params) (target params) then
           (s, Some ''Cannot create circular connections! Chatbot flows must be linear.'')
         else
           (s\<lparr>edges := edges s @
                 [\<lparr>source = source params, sourceHandle = deleteNull (sourceHandle params),
                   target = target params, targetHandle = deleteNull (targetHandle params),
                   edge_id = newId\<rparr>],
               persistedEdges := edges s @
                 [\<lparr>source = source params, sourceHandle = deleteNull (sourceHandle params),
                   target = target params, targetHandle = deleteNull (targetHandle params),
                   edge_id = newId\<rparr>]\<rparr>, None))) \<and>
   (snd (onConnect newId params s) \<noteq> None \<longrightarrow> fst (onConnect newId params s) = s)"
proof -
  have a: "onConnect newId params s = (s, None)" if "source params = [] \<or> target params = []"
    using that by (simp add: onConnect_result)
  have b: "onConnect newId params s = (s, Some ''Cannot connect a node to itself!'')"
    if "source params \<noteq> [] \<and> target params \<noteq> [] \<and> source params = target params"
    using that by (simp add: onConnect_result)
  have c: "onConnect newId params s =
        (s, Some ''Source handle can only have one outgoing connection!'')"
    if "source params \<noteq> [] \<and> target params \<noteq> [] \<and> source params \<noteq> target params \<and>
      (\<exists>e \<in> set (edges s). source e = source params \<and> sourceHandle e = sourceHandle params)"
    using that by (simp add: onConnect_result)
  have d: "onConnect newId params s =
        (if wouldCreateCycle (edges s) (source params) (target params) then
           (s, Some ''Cannot create circular connections! Chatbot flows must be linear.'')
         else
           (s\<lparr>edges := edges s @
                 [\<lparr>source = source params, sourceHandle = deleteNull (sourceHandle params),
                   target = target params, targetHandle = deleteNull (targetHandle params),
                   edge_id = newId\<rparr>],
               persistedEdges := edges s @
                 [\<lparr>source = source params, sourceHandle = deleteNull (sourceHandle params),
                   target = target params, targetHandle = deleteNull (targetHandle params),
                   edge_id = newId\<rparr>]\<rparr>, None))"
    if h: "source params \<noteq> [] \<and> target params \<noteq> [] \<and> source params \<noteq> target params \<and>
      \<not> (\<exists>e \<in> set (edges s). source e = source params \<and>
          sameHandle (sourceHandle e) (sourceHandle params))"
  proof -
    from h have strict: "\<not> (\<exists>e \<in> set (edges s). source e = source params \<and>
        sourceHandle e = sourceHandle params)"
      using sameHandle_refl by metis
    from h have app: "addEdge newId params (edges s) =
        edges s @ [\<lparr>source = source params, sourceHandle = deleteNull (sourceHandle params),
            target = target params, targetHandle = deleteNull (targetHandle params),
            edge_id = newId\<rparr>]"
      by (intro addEdge_appends) simp_all
    from h strict show ?thesis
      unfolding onConnect_result wouldCreateCycle_reach app by auto
  qed
  have e: "fst (onConnect newId params s) = s" if "snd (onConnect newId params s) \<noteq> None"
    using that by (auto simp: onConnect_result split: if_splits)
  from a b c d e show ?thesis by blast
qed

text \<open>
  One candidate for each outcome: a missing source, a self-loop, a second connection out
  of the handle \<open>out\<close> of node 1, the connection 3 \<rightarrow> 1 that would close the chain, and
  the connection 3 \<rightarrow> 4 that is appended.
\<close>

theorem onConnect_checks_in_order_witness:
  "onConnect ''e3'' (link [] ''1'') chainState = (chainState, None) \<and>
   onConnect ''e3'' (link ''1'' ''1'') chainState =
     (chainState, Some ''Cannot connect a node to itself!'') \<and>
   onConnect ''e2'' (namedLink ''1'' ''out'' ''3'') namedState =
     (namedState, Some ''Source handle can only have one outgoing connection!'') \<and>
   onConnect ''e3'' (link ''3'' ''1'') chainState =
     (chainState, Some ''Cannot create circular connections! Chatbot flows must be linear.'') \<and>
   map edge_id (edges (fst (onConnect ''e3'' (link ''3'' ''4'') chainState))) =
     [''e1'', ''e2'', ''e3''] \<and>
   snd (onConnect ''e3'' (link ''3'' ''4'') chainState) = None"
proof -
  note t1 = onConnect_checks_in_order[of "link [] ''1''" "''e3''" chainState]
  note t2 = onConnect_checks_in_order[of "link ''1'' ''1''" "''e3''" chainState]
  note t3 = onConnect_checks_in_order[of "namedLink ''1'' ''out'' ''3''" "''e2''" namedState]
  note t4 = onConnect_checks_in_order[of "link ''3'' ''1''" "''e3''" chainState]
  note t5 = onConnect_checks_in_order[of "link ''3'' ''4''" "''e3''" chainState]
  have a: "onConnect ''e3'' (link [] ''1'') chainState = (chainState, None)"
    using t1 by (simp add: link_def)
  have b: "onConnect ''e3'' (link ''1'' ''1'') chainState =
     (chainState, Some ''Cannot connect a node to itself!'')"
    using t2 by (simp add: link_def)
  have c: "onConnect ''e2'' (namedLink ''1'' ''out'' ''3'') namedState =
     (namedState, Some ''Source handle can only have one outgoing connection!'')"
    using t3 by (simp add: namedLink_def namedState_eq)
  have w: "wouldCreateCycle (edges chainState) ''3'' ''1''"
    by (simp add: chainState_edges wouldCreateCycle_def hasPath_eval)
  have d: "onConnect ''e3'' (link ''3'' ''1'') chainState =
     (chainState, Some ''Cannot create circular connections! Chatbot flows must be linear.'')"
    using t4 w by (simp add: link_def chainState_edges)
  have nw: "\<not> wouldCreateCycle (edges chainState) ''3'' ''4''"
    by (simp add: chainState_edges wouldCreateCycle_def hasPath_eval)
  have e: "map edge_id (edges (fst (onConnect ''e3'' (link ''3'' ''4'') chainState))) =
     [''e1'', ''e2'', ''e3''] \<and> snd (onConnect ''e3'' (link ''3'' ''4'') chainState) = None"
    using t5 nw by (simp add: link_def chainState_edges)
  from a b c d e show ?thesis by blast
qed

section \<open>The cycle check is reachability\<close>

text \<open>
  Claim C3, as stated, fails in its last clause. On the chain 1 \<rightarrow> 2 \<rightarrow> 3 the candidate
  1 \<rightarrow> 1 has a path of zero edges from its target to its source, and \<open>wouldCreateCycle\<close>
  is true of it, but \<open>onConnect\<close> refuses it with the self-loop message: that check comes
  first.
\<close>

theorem self_loop_cycle_counterexample:
  "(''1'', ''1'') \<in> (edge_rel (edges chainState))\<^sup>* \<and>
   wouldCreateCycle (edges chainState) ''1'' ''1'' \<and>
   onConnect ''e3'' (link ''1'' ''1'') chainState =
     (chainState, Some ''Cannot connect a node to itself!'') \<and>
   snd (onConnect ''e3'' (link ''1'' ''1'') chainState) \<noteq>
     Some ''Cannot create circular connections! Chatbot flows must be linear.''"
  by (simp add: onConnect_def wouldCreateCycle_def hasPath_eval link_def)

text \<open>
  Claim C3, amended. \<open>wouldCreateCycle es S T\<close> is true exactly when the existing edges
  \<open>es\<close> contain a directed path of zero or more edges from \<open>T\<close> to \<open>S\<close>; the candidate
  edge is not part of \<open>es\<close>. A candidate is refused with the cycle message only when such
  a path exists, and then the state is unchanged. A candidate that has both endpoints, is
  not a self-loop and leaves a source handle that no existing edge leaves is refused with
  the cycle message exactly when such a path exists.
\<close>

theorem cycle_check_is_reachability:
  "(wouldCreateCycle es sourceId targetId \<longleftrightarrow> (targetId, sourceId) \<in> (edge_rel es)\<^sup>*) \<and>
   (snd (onConnect newId params s) =
      Some ''Cannot create circular connections! Chatbot flows must be linear.'' \<longrightarrow>
      (target params, source params) \<in> (edge_rel (edges s))\<^sup>* \<and>
      fst (onConnect newId params s) = s) \<and>
   (source params \<noteq> [] \<and> target params \<noteq> [] \<and> source params \<noteq> target params \<and>
    \<not> (\<exists>e \<in> set (edges s). source e = source params \<and>
          sameHandle (sourceHandle e) (sourceHandle params)) \<longrightarrow>
      (onConnect newId params s =
         (s, Some ''Cannot create circular connections! Chatbot flows must be linear.'')
       \<longleftrightarrow> (target params, source params) \<in> (edge_rel (edges s))\<^sup>*))"
proof -
  have a: "wouldCreateCycle es sourceId targetId \<longleftrightarrow> (targetId, sourceId) \<in> (edge_rel es)\<^sup>*"
    by (rule wouldCreateCycle_reach)
  have b: "(target params, source params) \<in> (edge_rel (edges s))\<^sup>* \<and>
      fst (onConnect newId params s) = s"
    if "snd (onConnect newId params s) =
      Some ''Cannot create circular connections! Chatbot flows must be linear.''"
    using that by (auto simp: onConnect_result split: if_splits)
  have c: "onConnect newId params s =
         (s, Some ''Cannot create circular connections! Chatbot flows must be linear.'')
       \<longleftrightarrow> (target params, source params) \<in> (edge_rel (edges s))\<^sup>*"
    if h: "source params \<noteq> [] \<and> target params \<noteq> [] \<and> source params \<noteq> target params \<and>
      \<not> (\<exists>e \<in> set (edges s). source e = source params \<and>
          sameHandle (sourceHandle e) (sourceHandle params))"
  proof -
    from h have strict: "\<not> (\<exists>e \<in> set (edges s). source e = source params \<and>
        sourceHandle e = sourceHandle params)"
      using sameHandle_refl by metis
    from h strict show ?thesis by (auto simp: onConnect_result)
  qed
  from a b c show ?thesis by blast
qed

text \<open>On the chain 1 \<rightarrow> 2 \<rightarrow> 3, the candidate 3 \<rightarrow> 1 finds the path from 1 to 3.\<close>

theorem cycle_check_is_reachability_witness:
  "wouldCreateCycle (edges chainState) ''3'' ''1'' \<and>
   (''1'', ''3'') \<in> (edge_rel (edges chainState))\<^sup>* \<and>
   source (link ''3'' ''1'') \<noteq> [] \<and> target (link ''3'' ''1'') \<noteq> [] \<and>
   source (link ''3'' ''1'') \<noteq> target (link ''3'' ''1'') \<and>
   \<not> (\<exists>e \<in> set (edges chainState). source e = source (link ''3'' ''1'') \<and>
         sameHandle (sourceHandle e) (sourceHandle (link ''3'' ''1''))) \<and>
   onConnect ''e3'' (link ''3'' ''1'') chainState =
     (chainState, Some ''Cannot create circular connections! Chatbot flows must be linear.'')"
proof -
  have w: "wouldCreateCycle (edges chainState) ''3'' ''1''"
    by (simp add: chainState_edges wouldCreateCycle_def hasPath_eval)
  have pre: "source (link ''3'' ''1'') \<noteq> [] \<and> target (link ''3'' ''1'') \<noteq> [] \<and>
      source (link ''3'' ''1'') \<noteq> target (link ''3'' ''1'') \<and>
      \<not> (\<exists>e \<in> set (edges chainState). source e = source (link ''3'' ''1'') \<and>
         sameHandle (sourceHandle e) (sourceHandle (link ''3'' ''1'')))"
    by (simp add: chainState_edges link_def)
  note t = cycle_check_is_reachability[of "edges chainState" "''3''" "''1''" "''e3''"
      "link ''3'' ''1''" chainState]
  from t[THEN conjunct1] w have p: "(''1'', ''3'') \<in> (edge_rel (edges chainState))\<^sup>*" by simp
  from t[THEN conjunct2, THEN conjunct2, THEN mp, OF pre] p
  have "onConnect ''e3'' (link ''3'' ''1'') chainState =
     (chainState, Some ''Cannot create circular connections! Chatbot flows must be linear.'')"
    by (simp add: link_def)
  with w p pre show ?thesis by blast
qed

section \<open>Termination of the cycle search, stated\<close>

text \<open>
  Claim C9. Every call of the search terminates, for every edge list, every pair of node
  ids and every visited set: all arguments of \<open>hasPath\<close> and of its loop lie in the
  domain on which the recursion is well-founded. The visited set only grows, a node that
  is expanded is in the set afterwards, and a call on a visited node returns at once
  without expanding it, so no node is expanded twice.
\<close>

theorem hasPath_terminates:
  "hasPath_hasPathLoop_dom (Inl (es, frm, dst, visited)) \<and>
   hasPath_hasPathLoop_dom (Inr (es, dst, out, visited)) \<and>
   visited \<subseteq> snd (hasPath es frm dst visited) \<and>
   visited \<subseteq> snd (hasPathLoop es dst out visited) \<and>
   (frm \<noteq> dst \<longrightarrow> frm \<in> snd (hasPath es frm dst visited)) \<and>
   (frm \<noteq> dst \<longrightarrow> frm \<in> visited \<longrightarrow> hasPath es frm dst visited = (False, visited))"
proof -
  have "frm \<in> snd (hasPath es frm dst visited)" if "frm \<noteq> dst"
  proof (cases "frm \<in> visited")
    case True
    with that show ?thesis by (simp add: hasPath_revisit)
  next
    case False
    with that visited_grows(2)[of "insert frm visited" es dst "filter (\<lambda>edge. source edge = frm) es"]
    show ?thesis by (simp add: hasPath_expand)
  qed
  then show ?thesis
    using hasPath_dom_all visited_grows by (simp add: hasPath_revisit)
qed

text \<open>
  In the diamond, D is reached through B and through C; the second visit returns at once,
  and the whole search from A visits each node once.
\<close>

theorem hasPath_terminates_witness:
  "''D'' \<noteq> ''Z'' \<and> ''D'' \<in> {''A'', ''B'', ''D''} \<and>
   hasPath diamond ''D'' ''Z'' {''A'', ''B'', ''D''} = (False, {''A'', ''B'', ''D''}) \<and>
   hasPath diamond ''A'' ''Z'' {} = (False, {''A'', ''B'', ''C'', ''D''}) \<and>
   hasPath_hasPathLoop_dom (Inl (diamond, ''A'', ''Z'', {}))"
proof -
  have "hasPath diamond ''A'' ''Z'' {} = (False, {''A'', ''B'', ''C'', ''D''})"
    by (simp add: diamond_def hasPath_eval example_defs insert_commute)
  with hasPath_terminates[of diamond "''D''" "''Z''" "{''A'', ''B'', ''D''}" "[]"]
    hasPath_terminates[of diamond "''A''" "''Z''" "{}" "[]"]
  show ?thesis by simp
qed

section \<open>Fan-out\<close>

text \<open>
  Claim C6 (at most one edge per source node and source handle, a second one refused with
  the source-handle message) fails on the handler. \<open>addEdge\<close> stores an edge drawn from
  an id-less handle without a \<open>sourceHandle\<close> key, the next connection out of the same
  handle carries \<open>null\<close>, and \<open>edge.sourceHandle === params.sourceHandle\<close> compares
  \<open>undefined\<close> with \<open>null\<close>. From the default state the connections 1 \<rightarrow> 2 and 1 \<rightarrow> 3
  are both accepted without a message, and node 1 has two edges out of its one source
  handle. The same holds of \<open>onConnect\<close> alone on a stored edge list; there a repeated
  1 \<rightarrow> 2 is not refused either, only \<open>addEdge\<close> leaves it out.
\<close>

theorem fan_out_violated:
  "map source (edges (run fanOutIntents initialState)) = [''1'', ''1''] \<and>
   map sourceHandle (edges (run fanOutIntents initialState)) = [Undefined, Undefined] \<and>
   map target (edges (run fanOutIntents initialState)) = [''2'', ''3''] \<and>
   length (filter (\<lambda>e. source e = ''1'' \<and> sourceHandle e = Undefined)
     (edges (run fanOutIntents initialState))) = 2 \<and>
   snd (onConnect ''e2'' (link ''1'' ''3'') (initialState\<lparr>edges := [storedEdge]\<rparr>)) = None \<and>
   map target (edges (fst (onConnect ''e2'' (link ''1'' ''3'')
     (initialState\<lparr>edges := [storedEdge]\<rparr>)))) = [''2'', ''3''] \<and>
   onConnect ''e2'' (link ''1'' ''2'') (initialState\<lparr>edges := [storedEdge]\<rparr>) =
     (initialState\<lparr>edges := [storedEdge], persistedEdges := [storedEdge]\<rparr>, None)"
  by (simp add: fanOutIntents_def storedEdge_def onConnect_def wouldCreateCycle_def hasPath_eval
      example_defs Let_def)

section \<open>Connectivity and the save gate\<close>

lemma connectedNodeIds_fold:
  "fold (\<lambda>edge acc. insert (target edge) (insert (source edge) acc)) es A =
     A \<union> source ` set es \<union> target ` set es"
  by (induction es arbitrary: A) auto

lemma areAllNodesConnected_iff:
  "areAllNodesConnected ns es \<longleftrightarrow>
     length ns \<le> 1 \<or>
     (\<forall>nd \<in> set ns. \<exists>e \<in> set es. node_id nd = source e \<or> node_id nd = target e)"
  by (auto simp: areAllNodesConnected_def Let_def connectedNodeIds_fold list_all_iff)

text \<open>
  Claim C5. \<open>areAllNodesConnected\<close> is true exactly when there is at most one node or the
  id of every node is the source or the target of at least one edge. It is a function of
  the node list and the edge list that returns only the answer, so it changes no state.
\<close>

theorem connectivity_predicate:
  "areAllNodesConnected ns es \<longleftrightarrow>
     length ns \<le> 1 \<or>
     (\<forall>nd \<in> set ns. \<exists>e \<in> set es. node_id nd = source e \<or> node_id nd = target e)"
  by (rule areAllNodesConnected_iff)

text \<open>
  The default single node is connected; three nodes without edges are not; the chain of
  three nodes is.
\<close>

theorem connectivity_predicate_witness:
  "areAllNodesConnected (nodes initialState) (edges initialState) \<and>
   \<not> areAllNodesConnected (nodes threeNodes) [] \<and>
   areAllNodesConnected (nodes threeNodes) (edges threeNodes)"
proof -
  have a: "areAllNodesConnected (nodes initialState) (edges initialState)"
    by (simp add: areAllNodesConnected_def initialState_def defaultNodes_def)
  have b: "\<not> areAllNodesConnected (nodes threeNodes) []"
    by (simp add: areAllNodesConnected_def threeNodes_nodes)
  have c: "areAllNodesConnected (nodes threeNodes) (edges threeNodes)"
    by (simp add: areAllNodesConnected_def threeNodes_nodes threeNodes_edges_eq)
  from connectivity_predicate[of "nodes threeNodes" "edges threeNodes"] a b c
  show ?thesis by blast
qed

text \<open>
  Claim C4. \<open>saveChanges\<close> reports success exactly when \<open>areAllNodesConnected\<close> holds of
  the current nodes and edges; otherwise it shows the reason why saving is refused, and
  nodes, edges and the id counter are as before.
\<close>

theorem save_gate:
  "(saveChanges s = (s, Some ''Flow saved successfully! All nodes are properly connected.'')
      \<longleftrightarrow> areAllNodesConnected (nodes s) (edges s)) \<and>
   (\<not> areAllNodesConnected (nodes s) (edges s) \<longrightarrow>
      saveChanges s = (s, Some ''Cannot save! All nodes must be connected to the flow.'') \<and>
      nodes (fst (saveChanges s)) = nodes s \<and> edges (fst (saveChanges s)) = edges s \<and>
      nodeIdCounter (fst (saveChanges s)) = nodeIdCounter s)"
  by (simp add: saveChanges_def)

text \<open>The chain of three nodes can be saved; without its edges it cannot.\<close>

theorem save_gate_witness:
  "areAllNodesConnected (nodes threeNodes) (edges threeNodes) \<and>
   saveChanges threeNodes =
     (threeNodes, Some ''Flow saved successfully! All nodes are properly connected.'') \<and>
   \<not> areAllNodesConnected (nodes (threeNodes\<lparr>edges := []\<rparr>)) (edges (threeNodes\<lparr>edges := []\<rparr>)) \<and>
   saveChanges (threeNodes\<lparr>edges := []\<rparr>) =
     (threeNodes\<lparr>edges := []\<rparr>, Some ''Cannot save! All nodes must be connected to the flow.'')"
proof -
  have a: "areAllNodesConnected (nodes threeNodes) (edges threeNodes)"
    by (simp add: areAllNodesConnected_def threeNodes_nodes threeNodes_edges_eq)
  have b: "\<not> areAllNodesConnected (nodes (threeNodes\<lparr>edges := []\<rparr>)) (edges (threeNodes\<lparr>edges := []\<rparr>))"
    by (simp add: areAllNodesConnected_def threeNodes_nodes)
  from save_gate[of threeNodes] save_gate[of "threeNodes\<lparr>edges := []\<rparr>"] a b
  show ?thesis by simp
qed

text \<open>
  Claim C10. \<open>saveChanges\<close> returns the state it was given, whatever the outcome: nodes,
  edges, their persisted copies, the id counter and the selection are unchanged, and a
  message is shown in both outcomes.
\<close>

theorem save_changes_nothing:
  "fst (saveChanges s) = s \<and>
   nodes (fst (saveChanges s)) = nodes s \<and> edges (fst (saveChanges s)) = edges s \<and>
   persistedNodes (fst (saveChanges s)) = persistedNodes s \<and>
   persistedEdges (fst (saveChanges s)) = persistedEdges s \<and>
   nodeIdCounter (fst (saveChanges s)) = nodeIdCounter s \<and>
   selectedNodeId (fst (saveChanges s)) = selectedNodeId s \<and>
   selectedEdgeId (fst (saveChanges s)) = selectedEdgeId s \<and>
   snd (saveChanges s) \<noteq> None \<and> step SaveChanges s = s"
  by (simp add: saveChanges_def)

section \<open>Cascade delete\<close>

lemma filter_distinct_length:
  "distinct (map f xs) \<Longrightarrow> k \<in> set (map f xs) \<Longrightarrow>
     length (filter (\<lambda>x. f x \<noteq> k) xs) + 1 = length xs"
proof (induction xs)
  case Nil
  then show ?case by simp
next
  case (Cons x xs)
  show ?case
  proof (cases "f x = k")
    case True
    with Cons.prems have "k \<notin> f ` set xs" by auto
    then have "filter (\<lambda>x. f x \<noteq> k) xs = xs" by (auto simp: filter_id_conv)
    with True show ?thesis by simp
  next
    case False
    with Cons show ?thesis by auto
  qed
qed

lemma filter_complement_length:
  "length (filter (\<lambda>x. \<not> P x) xs) + length (filter P xs) = length xs"
  by (induction xs) auto

lemma deleteSelectedNode_result:
  assumes "selectedNodeId s = Some X" "X \<noteq> []"
  shows "deleteSelectedNode s =
     s\<lparr>nodes := filter (\<lambda>nd. node_id nd \<noteq> X) (nodes s),
       persistedNodes := filter (\<lambda>nd. node_id nd \<noteq> X) (nodes s),
       edges := filter (\<lambda>e. source e \<noteq> X \<and> target e \<noteq> X) (edges s),
       persistedEdges := filter (\<lambda>e. source e \<noteq> X \<and> target e \<noteq> X) (edges s),
       selectedNodeId := None, showSettings := False, messageText := []\<rparr>"
  using assms by (simp add: deleteSelectedNode_def falsy_def Let_def)

text \<open>
  Claim C7. In a graph whose node ids are pairwise distinct and that contains a node with
  id \<open>X\<close>, deleting the selected node \<open>X\<close> (a non-empty id, as \<open>deleteSelectedNode\<close>
  returns at once on an empty selection) removes, in one transition, that node and exactly
  the edges whose source or target is \<open>X\<close>; all other nodes and edges stay, in order. The
  node count drops by one and the edge count by the number of edges incident to \<open>X\<close>.
\<close>

theorem cascade_delete_exact:
  assumes "distinct (map node_id (nodes s))"
    and "X \<in> set (map node_id (nodes s))"
    and "selectedNodeId s = Some X"
    and "X \<noteq> []"
  shows "nodes (deleteSelectedNode s) = filter (\<lambda>nd. node_id nd \<noteq> X) (nodes s) \<and>
    edges (deleteSelectedNode s) = filter (\<lambda>e. \<not> (source e = X \<or> target e = X)) (edges s) \<and>
    persistedNodes (deleteSelectedNode s) = nodes (deleteSelectedNode s) \<and>
    persistedEdges (deleteSelectedNode s) = edges (deleteSelectedNode s) \<and>
    nodeIdCounter (deleteSelectedNode s) = nodeIdCounter s \<and>
    length (nodes (deleteSelectedNode s)) = length (nodes s) - 1 \<and>
    length (nodes (deleteSelectedNode s)) + 1 = length (nodes s) \<and>
    length (edges (deleteSelectedNode s)) =
      length (edges s) - length (filter (\<lambda>e. source e = X \<or> target e = X) (edges s)) \<and>
    length (edges (deleteSelectedNode s)) +
      length (filter (\<lambda>e. source e = X \<or> target e = X) (edges s)) = length (edges s)"
proof -
  let ?s' = "deleteSelectedNode s"
  have n: "nodes ?s' = filter (\<lambda>nd. node_id nd \<noteq> X) (nodes s)"
    and pn: "persistedNodes ?s' = nodes ?s'"
    and pe: "persistedEdges ?s' = edges ?s'"
    and c: "nodeIdCounter ?s' = nodeIdCounter s"
    by (simp_all add: deleteSelectedNode_result[OF assms(3,4)])
  have e: "edges ?s' = filter (\<lambda>e. \<not> (source e = X \<or> target e = X)) (edges s)"
    by (simp add: deleteSelectedNode_result[OF assms(3,4)])
  have ln: "length (nodes ?s') + 1 = length (nodes s)"
    unfolding n using assms(1,2) by (rule filter_distinct_length)
  have le: "length (edges ?s') + length (filter (\<lambda>e. source e = X \<or> target e = X) (edges s))
      = length (edges s)"
    unfolding e by (rule filter_complement_length)
  have ln': "length (nodes ?s') = length (nodes s) - 1"
    using ln by arith
  have le': "length (edges ?s') =
      length (edges s) - length (filter (\<lambda>e. source e = X \<or> target e = X) (edges s))"
    using le by arith
  from n e pn pe c ln le ln' le' show ?thesis by blast
qed

text \<open>Deleting node 2 from the chain 1 \<rightarrow> 2 \<rightarrow> 3 leaves nodes 1 and 3 and no edge.\<close>

theorem cascade_delete_exact_witness:
  "distinct (map node_id (nodes (threeNodes\<lparr>selectedNodeId := Some ''2''\<rparr>))) \<and>
   ''2'' \<in> set (map node_id (nodes (threeNodes\<lparr>selectedNodeId := Some ''2''\<rparr>))) \<and>
   selectedNodeId (threeNodes\<lparr>selectedNodeId := Some ''2''\<rparr>) = Some ''2'' \<and>
   ''2'' \<noteq> [] \<and>
   map node_id (nodes (deleteSelectedNode (threeNodes\<lparr>selectedNodeId := Some ''2''\<rparr>))) = [''1'', ''3''] \<and>
   edges (deleteSelectedNode (threeNodes\<lparr>selectedNodeId := Some ''2''\<rparr>)) = [] \<and>
   length (nodes (deleteSelectedNode (threeNodes\<lparr>selectedNodeId := Some ''2''\<rparr>))) = 2"
proof -
  let ?s = "threeNodes\<lparr>selectedNodeId := Some ''2''\<rparr>"
  have h1: "distinct (map node_id (nodes ?s))" by (simp add: threeNodes_nodes)
  have h2: "''2'' \<in> set (map node_id (nodes ?s))" by (simp add: threeNodes_nodes)
  have h3: "selectedNodeId ?s = Some ''2''" by simp
  have h4: "''2'' \<noteq> []" by simp
  from cascade_delete_exact[OF h1 h2 h3 h4] h1 h2 h3 h4
  show ?thesis by (simp add: threeNodes_nodes threeNodes_edges_eq)
qed

section \<open>Node ids\<close>

lemma digit_inj: "a < 10 \<Longrightarrow> b < 10 \<Longrightarrow> digit a = digit b \<Longrightarrow> a = b"
proof -
  assume a: "a < 10" and b: "b < 10" and eq: "digit a = digit b"
  have d: "distinct ''0123456789''" by simp
  have "(''0123456789'' ! a = ''0123456789'' ! b) = (a = b)"
    using d a b by (intro nth_eq_iff_index_eq) simp_all
  with eq show "a = b" by (simp add: digit_def)
qed

lemma toString_nonempty: "toString n \<noteq> []"
  by (subst toString.simps) simp

lemma toString_inj: "toString n = toString m \<Longrightarrow> n = m"
proof (induction n arbitrary: m rule: toString.induct)
  case (1 n)
  show ?case
  proof (cases "n < 10")
    case n: True
    show ?thesis
    proof (cases "m < 10")
      case True
      from 1(2) have "[digit n] = [digit m]"
        by (subst (asm) toString.simps, subst (asm) (2) toString.simps) (simp add: n True)
      with n True show ?thesis by (simp add: digit_inj)
    next
      case False
      from 1(2) have "[digit n] = toString (m div 10) @ [digit (m mod 10)]"
        by (subst (asm) toString.simps, subst (asm) (2) toString.simps) (simp add: n False)
      then show ?thesis using toString_nonempty[of "m div 10"] by auto
    qed
  next
    case n: False
    show ?thesis
    proof (cases "m < 10")
      case True
      from 1(2) have "toString (n div 10) @ [digit (n mod 10)] = [digit m]"
        by (subst (asm) toString.simps, subst (asm) (2) toString.simps) (simp add: n True)
      then show ?thesis by (simp add: toString_nonempty)
    next
      case False
      from 1(2) have "toString (n div 10) @ [digit (n mod 10)] =
          toString (m div 10) @ [digit (m mod 10)]"
        by (subst (asm) toString.simps, subst (asm) (2) toString.simps) (simp add: n False)
      then have a: "toString (n div 10) = toString (m div 10)"
        and b: "digit (n mod 10) = digit (m mod 10)" by simp_all
      from 1(1)[OF n a] have "n div 10 = m div 10" .
      moreover from b have "n mod 10 = m mod 10" by (intro digit_inj) simp_all
      ultimately show ?thesis by (metis div_mult_mod_eq)
    qed
  qed
qed

lemma toString_1: "toString 1 = ''1''"
  by (simp add: toString.simps digit_def)


lemma jsIncrement_below: "n < counterLimit \<Longrightarrow> jsIncrement n = Suc n"
  by (simp add: jsIncrement_def)

lemma jsIncrement_ge: "n \<le> jsIncrement n"
  by (simp add: jsIncrement_def)

lemma jsIncrement_le: "jsIncrement n \<le> Suc n"
  by (simp add: jsIncrement_def)

lemma idsAllocated_initial: "idsAllocated initialState"
proof -
  have "\<exists>k<2::nat. ''1'' = toString k" using toString_1 by (intro exI[of _ 1]) simp
  then show ?thesis by (simp add: idsAllocated_def initialState_def defaultNodes_def)
qed

lemma idsAllocated_fresh:
  assumes "idsAllocated s"
  shows "toString (nodeIdCounter s) \<notin> set (map node_id (nodes s))"
proof
  assume "toString (nodeIdCounter s) \<in> set (map node_id (nodes s))"
  then obtain nd where "nd \<in> set (nodes s)" "node_id nd = toString (nodeIdCounter s)" by auto
  with assms obtain k where "k < nodeIdCounter s" "toString k = toString (nodeIdCounter s)"
    unfolding idsAllocated_def by metis
  then show False using toString_inj by blast
qed

lemma createMessageNode_nodes:
  "trim (messageText s) \<noteq> [] \<Longrightarrow>
     map node_id (nodes (createMessageNode pos s)) =
       map node_id (nodes s) @ [toString (nodeIdCounter s)] \<and>
     nodeIdCounter (createMessageNode pos s) = jsIncrement (nodeIdCounter s)"
  by (simp add: createMessageNode_def Let_def)

lemma idsAllocated_create:
  assumes inv: "idsAllocated s" and lim: "nodeIdCounter s < counterLimit"
  shows "idsAllocated (createMessageNode pos s)"
proof (cases "trim (messageText s) = []")
  case True
  with inv show ?thesis by (simp add: createMessageNode_def)
next
  case False
  let ?s' = "createMessageNode pos s"
  from createMessageNode_nodes[OF False, of pos]
  have ids: "map node_id (nodes ?s') = map node_id (nodes s) @ [toString (nodeIdCounter s)]"
    and c: "nodeIdCounter ?s' = Suc (nodeIdCounter s)"
    using lim by (simp_all add: jsIncrement_below)
  have d: "distinct (map node_id (nodes ?s'))"
    unfolding ids using inv idsAllocated_fresh[OF inv] by (simp add: idsAllocated_def)
  have "\<exists>k < nodeIdCounter ?s'. x = toString k" if "x \<in> set (map node_id (nodes ?s'))" for x
  proof (cases "x = toString (nodeIdCounter s)")
    case True
    then show ?thesis unfolding c by blast
  next
    case False
    with that have "x \<in> set (map node_id (nodes s))" unfolding ids by simp
    with inv obtain k where "k < nodeIdCounter s" "x = toString k"
      unfolding idsAllocated_def by auto
    then show ?thesis unfolding c using less_Suc_eq by blast
  qed
  then have "\<forall>nd \<in> set (nodes ?s'). \<exists>k < nodeIdCounter ?s'. node_id nd = toString k"
    by simp
  with d c inv show ?thesis unfolding idsAllocated_def by simp
qed

lemma updateSelectedNode_ids:
  "map node_id (nodes (updateSelectedNode s)) = map node_id (nodes s) \<and>
   nodeIdCounter (updateSelectedNode s) = nodeIdCounter s"
proof -
  let ?f = "\<lambda>nd. if Some (node_id nd) = selectedNodeId s then nd\<lparr>message := messageText s\<rparr> else nd"
  have idf: "node_id (?f nd) = node_id nd" for nd by simp
  have "map node_id (map ?f (nodes s)) = map node_id (nodes s)"
    unfolding map_map comp_def idf ..
  then show ?thesis by (simp add: updateSelectedNode_def Let_def)
qed

lemma idsAllocated_by_ids:
  assumes "idsAllocated s" "set (map node_id (nodes s')) \<subseteq> set (map node_id (nodes s))"
    and "distinct (map node_id (nodes s'))" "nodeIdCounter s' = nodeIdCounter s"
  shows "idsAllocated s'"
proof -
  from assms(1) have all: "\<forall>nd \<in> set (nodes s). \<exists>k < nodeIdCounter s. node_id nd = toString k"
    and two: "2 \<le> nodeIdCounter s"
    by (simp_all add: idsAllocated_def)
  have "\<exists>k < nodeIdCounter s'. node_id nd = toString k" if "nd \<in> set (nodes s')" for nd
  proof -
    from that have "node_id nd \<in> set (map node_id (nodes s'))" by simp
    with assms(2) have "node_id nd \<in> set (map node_id (nodes s))" by blast
    then obtain nd0 where nd0: "nd0 \<in> set (nodes s)" "node_id nd0 = node_id nd" by auto
    from all nd0(1) obtain k where "k < nodeIdCounter s" "node_id nd0 = toString k" by blast
    with nd0(2) assms(4) show ?thesis by auto
  qed
  then have "\<forall>nd \<in> set (nodes s'). \<exists>k < nodeIdCounter s'. node_id nd = toString k" by blast
  with two assms(3,4) show ?thesis unfolding idsAllocated_def by simp
qed

lemma idsAllocated_update:
  assumes "idsAllocated s"
  shows "idsAllocated (updateSelectedNode s)"
proof (rule idsAllocated_by_ids[OF assms])
  show "set (map node_id (nodes (updateSelectedNode s))) \<subseteq> set (map node_id (nodes s))"
    using updateSelectedNode_ids[of s] by simp
  show "distinct (map node_id (nodes (updateSelectedNode s)))"
    using updateSelectedNode_ids[of s] assms by (simp add: idsAllocated_def)
  show "nodeIdCounter (updateSelectedNode s) = nodeIdCounter s"
    using updateSelectedNode_ids[of s] by simp
qed

lemma idsAllocated_delete:
  assumes "idsAllocated s"
  shows "idsAllocated (deleteSelectedNode s)"
proof (rule idsAllocated_by_ids[OF assms])
  show "set (map node_id (nodes (deleteSelectedNode s))) \<subseteq> set (map node_id (nodes s))"
    by (auto simp: deleteSelectedNode_def Let_def)
  show "distinct (map node_id (nodes (deleteSelectedNode s)))"
    using assms by (simp add: deleteSelectedNode_def idsAllocated_def Let_def distinct_map_filter)
  show "nodeIdCounter (deleteSelectedNode s) = nodeIdCounter s"
    by (simp add: deleteSelectedNode_def Let_def)
qed

lemma idsAllocated_clear: "idsAllocated (handleClearAll s)"
  using idsAllocated_initial
  by (simp add: idsAllocated_def handleClearAll_def initialState_def)

lemma onConnect_nodes:
  "nodes (fst (onConnect newId params s)) = nodes s"
  "nodeIdCounter (fst (onConnect newId params s)) = nodeIdCounter s"
  by (simp_all add: onConnect_result)

text \<open>The intents that leave the node list and the counter alone.\<close>

lemma step_nodes_frame:
  assumes "\<forall>pos. i \<noteq> CreateMessageNode pos" "i \<noteq> UpdateSelectedNode"
    "i \<noteq> DeleteSelectedNode" "i \<noteq> ClearAll"
  shows "nodes (step i s) = nodes s \<and> nodeIdCounter (step i s) = nodeIdCounter s"
  using assms
  by (cases i) (simp_all add: onConnect_nodes onNodeClick_def onEdgeClick_def onPaneClick_def
      deleteSelectedEdge_def handleKeyDown_def setMessageText_def toggleSettings_def
      cancelSettings_def saveChanges_def Let_def)

lemma step_idsAllocated:
  assumes inv: "idsAllocated s" and lim: "nodeIdCounter s < counterLimit"
  shows "idsAllocated (step i s)"
proof -
  consider pos where "i = CreateMessageNode pos" | "i = UpdateSelectedNode"
    | "i = DeleteSelectedNode" | "i = ClearAll"
    | "\<forall>pos. i \<noteq> CreateMessageNode pos" "i \<noteq> UpdateSelectedNode"
      "i \<noteq> DeleteSelectedNode" "i \<noteq> ClearAll"
    by blast
  then show ?thesis
  proof cases
    case 1
    then show ?thesis using inv lim by (simp add: idsAllocated_create)
  next
    case 2
    then show ?thesis using inv by (simp add: idsAllocated_update)
  next
    case 3
    then show ?thesis using inv by (simp add: idsAllocated_delete)
  next
    case 4
    then show ?thesis by (simp add: idsAllocated_clear)
  next
    case 5
    from step_nodes_frame[OF 5, of s] inv show ?thesis by (simp add: idsAllocated_def)
  qed
qed

lemma step_counter: "i \<noteq> ClearAll \<Longrightarrow> nodeIdCounter s \<le> nodeIdCounter (step i s)"
  by (cases i) (simp_all add: onConnect_nodes onNodeClick_def onEdgeClick_def onPaneClick_def
      deleteSelectedEdge_def handleKeyDown_def setMessageText_def toggleSettings_def
      cancelSettings_def saveChanges_def createMessageNode_def updateSelectedNode_def
      deleteSelectedNode_def jsIncrement_ge Let_def)

lemma step_counter_upper:
  "2 \<le> nodeIdCounter s \<Longrightarrow> nodeIdCounter (step i s) \<le> Suc (nodeIdCounter s)"
  by (cases i) (simp_all add: onConnect_nodes onNodeClick_def onEdgeClick_def onPaneClick_def
      deleteSelectedEdge_def handleKeyDown_def setMessageText_def toggleSettings_def
      cancelSettings_def saveChanges_def createMessageNode_def updateSelectedNode_def
      deleteSelectedNode_def handleClearAll_def jsIncrement_le Let_def)

lemma run_idsAllocated:
  "idsAllocated s \<Longrightarrow> nodeIdCounter s + length is \<le> counterLimit \<Longrightarrow>
     idsAllocated (run is s) \<and> nodeIdCounter (run is s) \<le> nodeIdCounter s + length is"
proof (induction "is" arbitrary: s)
  case Nil
  then show ?case by simp
next
  case (Cons i "is")
  from Cons.prems have lim: "nodeIdCounter s < counterLimit" by simp
  have inv': "idsAllocated (step i s)" using Cons.prems(1) lim by (rule step_idsAllocated)
  from Cons.prems(1) have "2 \<le> nodeIdCounter s" by (simp add: idsAllocated_def)
  then have up: "nodeIdCounter (step i s) \<le> Suc (nodeIdCounter s)" by (rule step_counter_upper)
  with Cons.prems(2) have "nodeIdCounter (step i s) + length is \<le> counterLimit" by simp
  from Cons.IH[OF inv' this]
  have a: "idsAllocated (run is (step i s))"
    and b: "nodeIdCounter (run is (step i s)) \<le> nodeIdCounter (step i s) + length is"
    by blast+
  from b up have "nodeIdCounter (run is (step i s)) \<le> nodeIdCounter s + Suc (length is)"
    by linarith
  with a show ?case by simp
qed

lemma filter_absent_subset:
  "set ys \<subseteq> set xs \<Longrightarrow> filter (\<lambda>x. x \<notin> set xs) ys = []"
  by (auto simp: filter_empty_conv)

lemma newIds_create:
  assumes "idsAllocated s" "trim (messageText s) \<noteq> []"
  shows "newIds (CreateMessageNode pos) s = [toString (nodeIdCounter s)]"
  using createMessageNode_nodes[OF assms(2), of pos] idsAllocated_fresh[OF assms(1)]
  by (simp add: newIds_def filter_absent_subset)

lemma newIds_none:
  assumes "i \<noteq> ClearAll" "\<forall>pos. i = CreateMessageNode pos \<longrightarrow> trim (messageText s) = []"
  shows "newIds i s = []"
proof -
  have "set (map node_id (nodes (step i s))) \<subseteq> set (map node_id (nodes s))"
  proof (cases i)
    case (CreateMessageNode pos)
    with assms(2) show ?thesis by (simp add: createMessageNode_def)
  next
    case UpdateSelectedNode
    then show ?thesis using updateSelectedNode_ids[of s] by simp
  next
    case DeleteSelectedNode
    then show ?thesis by (auto simp: deleteSelectedNode_def Let_def)
  next
    case ClearAll
    with assms(1) show ?thesis by simp
  qed (simp_all add: onConnect_nodes onNodeClick_def onEdgeClick_def onPaneClick_def
      deleteSelectedEdge_def handleKeyDown_def setMessageText_def toggleSettings_def
      cancelSettings_def saveChanges_def Let_def)
  then show ?thesis unfolding newIds_def by (rule filter_absent_subset)
qed

lemma issued_fresh:
  "idsAllocated s \<Longrightarrow> nodeIdCounter s + length is \<le> counterLimit \<Longrightarrow> ClearAll \<notin> set is \<Longrightarrow>
     distinct (issued is s) \<and>
     (\<forall>x \<in> set (issued is s). \<exists>k \<ge> nodeIdCounter s. x = toString k)"
proof (induction "is" arbitrary: s)
  case Nil
  then show ?case by simp
next
  case (Cons i "is")
  then have ne: "i \<noteq> ClearAll" and rest: "ClearAll \<notin> set is" by auto
  from Cons.prems have lim: "nodeIdCounter s < counterLimit" by simp
  have inv': "idsAllocated (step i s)" using Cons.prems(1) lim by (rule step_idsAllocated)
  from Cons.prems(1) have "2 \<le> nodeIdCounter s" by (simp add: idsAllocated_def)
  then have up: "nodeIdCounter (step i s) \<le> Suc (nodeIdCounter s)" by (rule step_counter_upper)
  with Cons.prems(2) have lim': "nodeIdCounter (step i s) + length is \<le> counterLimit" by simp
  from Cons.IH[OF inv' lim' rest]
  have d: "distinct (issued is (step i s))"
    and f: "\<And>x. x \<in> set (issued is (step i s)) \<Longrightarrow> \<exists>k \<ge> nodeIdCounter (step i s). x = toString k"
    by auto
  have mono: "nodeIdCounter s \<le> nodeIdCounter (step i s)" using ne by (rule step_counter)
  have f': "\<exists>k \<ge> nodeIdCounter s. x = toString k" if "x \<in> set (issued is (step i s))" for x
  proof -
    from f[OF that] obtain k where k: "k \<ge> nodeIdCounter (step i s)" "x = toString k" by blast
    with mono have "k \<ge> nodeIdCounter s" by simp
    with k(2) show ?thesis by blast
  qed
  show ?case
  proof (cases "\<exists>pos. i = CreateMessageNode pos \<and> trim (messageText s) \<noteq> []")
    case True
    then obtain pos where i: "i = CreateMessageNode pos" and nb: "trim (messageText s) \<noteq> []"
      by blast
    have n: "newIds i s = [toString (nodeIdCounter s)]"
      unfolding i using Cons.prems(1) nb by (rule newIds_create)
    have c: "nodeIdCounter (step i s) = Suc (nodeIdCounter s)"
      using i nb lim createMessageNode_nodes[OF nb, of pos] by (simp add: jsIncrement_below)
    have "toString (nodeIdCounter s) \<notin> set (issued is (step i s))"
    proof
      assume "toString (nodeIdCounter s) \<in> set (issued is (step i s))"
      from f[OF this] obtain k where "k \<ge> nodeIdCounter (step i s)"
        "toString (nodeIdCounter s) = toString k" by blast
      with c toString_inj[of "nodeIdCounter s" k] show False by simp
    qed
    with d f' n show ?thesis by auto
  next
    case False
    with ne have "newIds i s = []" by (intro newIds_none) auto
    with d f' show ?thesis by auto
  qed
qed

lemma issued_not_present:
  assumes "idsAllocated s" "nodeIdCounter s + length is \<le> counterLimit" "ClearAll \<notin> set is"
  shows "set (issued is s) \<inter> set (map node_id (nodes s)) = {}"
proof (rule ccontr)
  assume "set (issued is s) \<inter> set (map node_id (nodes s)) \<noteq> {}"
  then obtain x nd where x: "x \<in> set (issued is s)" and nd: "nd \<in> set (nodes s)" "node_id nd = x"
    by auto
  from issued_fresh[OF assms] x obtain k where k: "k \<ge> nodeIdCounter s" "x = toString k"
    by blast
  from assms(1) nd obtain j where j: "j < nodeIdCounter s" "x = toString j"
    unfolding idsAllocated_def by blast
  from k j toString_inj[of k j] show False by simp
qed

text \<open>
  Claim C8, as stated, fails: \<open>handleClearAll\<close> sets the counter back to 2, so the next
  node created gets the id 2 again. The node "first try" and, after the reset, the node
  "second try" both have the id 2.
\<close>

theorem id_reuse_counterexample:
  "issued resetIntents initialState = [''2'', ''2''] \<and>
   \<not> distinct (issued resetIntents initialState) \<and>
   map node_id (nodes (run (take 2 resetIntents) initialState)) = [''1'', ''2''] \<and>
   map message (nodes (run (take 2 resetIntents) initialState)) =
     [utf16 ''Hello! Welcome to our Bitespeed.'', utf16 ''first try''] \<and>
   map node_id (nodes (run resetIntents initialState)) = [''1'', ''2''] \<and>
   map message (nodes (run resetIntents initialState)) =
     [utf16 ''Hello! Welcome to our Bitespeed.'', utf16 ''second try'']"
proof -
  have t: "trim (utf16 ''first try'') = utf16 ''first try''"
    "trim (utf16 ''second try'') = utf16 ''second try''"
    by (simp_all add: trim_def utf16_def isWhitespace_def)
  show ?thesis
    by (simp add: resetIntents_def newIds_def handler_defs example_defs t utf16_empty
        toString.simps digit_def jsIncrement_def counterLimit_def Let_def)
qed

text \<open>
  Claim C8, amended. While the counter is in the range where its arithmetic is exact
  (fewer than \<open>2^53 - 2\<close> intents since the default state): in every state reached from
  the default state, no two nodes present share an id; and over any sequence of intents
  without a reset, started in such a state, the node ids that enter the graph are
  pairwise distinct and differ from the ids of the nodes present at its start, so no id
  is reused between two resets. The counter never decreases under an intent other than
  the reset, and the reset sets it to its default value 2.
\<close>

theorem ids_unique_between_resets:
  "(length pre + length is + 2 \<le> counterLimit \<longrightarrow>
      distinct (map node_id (nodes (run pre initialState))) \<and>
      (ClearAll \<notin> set is \<longrightarrow>
         distinct (issued is (run pre initialState)) \<and>
         set (issued is (run pre initialState)) \<inter>
           set (map node_id (nodes (run pre initialState))) = {})) \<and>
   (i \<noteq> ClearAll \<longrightarrow> nodeIdCounter s \<le> nodeIdCounter (step i s)) \<and>
   nodeIdCounter (step ClearAll s) = 2"
proof -
  have a: "distinct (map node_id (nodes (run pre initialState))) \<and>
      (ClearAll \<notin> set is \<longrightarrow>
         distinct (issued is (run pre initialState)) \<and>
         set (issued is (run pre initialState)) \<inter>
           set (map node_id (nodes (run pre initialState))) = {})"
    if b: "length pre + length is + 2 \<le> counterLimit"
  proof -
    have c0: "nodeIdCounter initialState = 2" by (simp add: initialState_def)
    with b have "nodeIdCounter initialState + length pre \<le> counterLimit" by simp
    from run_idsAllocated[OF idsAllocated_initial this]
    have inv: "idsAllocated (run pre initialState)"
      and up: "nodeIdCounter (run pre initialState) \<le> 2 + length pre"
      using c0 by simp_all
    from up b have lim: "nodeIdCounter (run pre initialState) + length is \<le> counterLimit"
      by simp
    from inv have "distinct (map node_id (nodes (run pre initialState)))"
      by (simp add: idsAllocated_def)
    with issued_fresh[OF inv lim] issued_not_present[OF inv lim] show ?thesis by blast
  qed
  have "nodeIdCounter (step ClearAll s) = 2" by (simp add: handleClearAll_def)
  with a step_counter[of i s] show ?thesis by blast
qed

text \<open>
  Node 2 is created and deleted; the next node gets the id 3, not 2. A reset then returns
  the counter from 4 to 2.
\<close>

theorem ids_unique_between_resets_witness:
  "length ([] :: intent list) + length createIntents + 2 \<le> counterLimit \<and>
   ClearAll \<notin> set createIntents \<and>
   issued createIntents initialState = [''2'', ''3''] \<and>
   distinct (issued createIntents initialState) \<and>
   map node_id (nodes (run createIntents initialState)) = [''1'', ''3''] \<and>
   CreateMessageNode (100, 100) \<noteq> ClearAll \<and>
   nodeIdCounter (run createIntents initialState) = 4 \<and>
   nodeIdCounter (step ClearAll (run createIntents initialState)) = 2"
proof -
  have l: "length ([] :: intent list) + length createIntents + 2 \<le> counterLimit"
    by (simp add: createIntents_def counterLimit_def)
  have a: "ClearAll \<notin> set createIntents" by (simp add: createIntents_def)
  have b: "issued createIntents initialState = [''2'', ''3'']"
    by (simp add: createIntents_def newIds_def handler_defs example_defs text_eval
        toString.simps digit_def falsy_def jsIncrement_def counterLimit_def Let_def)
  have c: "map node_id (nodes (run createIntents initialState)) = [''1'', ''3'']"
    "nodeIdCounter (run createIntents initialState) = 4"
    by (simp_all add: createIntents_def handler_defs example_defs text_eval
        toString.simps digit_def falsy_def jsIncrement_def counterLimit_def Let_def)
  from ids_unique_between_resets[of "[]" createIntents "CreateMessageNode (100, 100)"
      "run createIntents initialState"] l a b c
  show ?thesis by simp
qed

end
